theory Spec2Isabelle
  imports Complex_Main
begin

section \<open>Python primitives used by the editor\<close>

text \<open>
  Times are Python numbers (ints and floats); they are modelled as exact rationals, so
  rounding of float arithmetic, infinities and NaN are outside the model. Text is a
  Python \<open>str\<close>, modelled as a list of 8-bit characters (code points below 256).
  Exceptions are values of \<open>error\<close>.
\<close>

datatype error = ValueError | AttributeError | IndexError

text \<open>\<open>str.isspace\<close> on code points below 256, the characters \<open>str.strip()\<close> removes.\<close>

definition isspace :: "char \<Rightarrow> bool" where
  "isspace c =
     (let n = (of_char c :: nat)
      in (9 \<le> n \<and> n \<le> 13) \<or> (28 \<le> n \<and> n \<le> 32) \<or> n = 133 \<or> n = 160)"

definition strip :: "string \<Rightarrow> string" where
  "strip s = rev (dropWhile isspace (rev (dropWhile isspace s)))"

text \<open>The regex class \<open>\d\<close>: below code point 256 the decimal digits are \<open>0\<close> to \<open>9\<close>.\<close>

definition isdigit :: "char \<Rightarrow> bool" where
  "isdigit c = (48 \<le> (of_char c :: nat) \<and> (of_char c :: nat) \<le> 57)"

text \<open>\<open>str.split(sep)\<close> with a one-character separator.\<close>

fun split :: "char \<Rightarrow> string \<Rightarrow> string list" where
  "split sep [] = [[]]"
| "split sep (c # cs) =
     (if c = sep then [] # split sep cs
      else (case split sep cs of [] \<Rightarrow> [[c]] | f # fs \<Rightarrow> (c # f) # fs))"

text \<open>
  \<open>int(s)\<close> on a string of decimal digits, the only strings the parser passes to it
  (each field has matched \<open>\d{m,n}\<close> before).
\<close>

definition int_of_str :: "string \<Rightarrow> int" where
  "int_of_str s = foldl (\<lambda>a c. 10 * a + (int (of_char c) - 48)) 0 s"

text \<open>\<open>int(x)\<close> on a number: truncation towards zero.\<close>

definition int_of_num :: "rat \<Rightarrow> int" where
  "int_of_num x = (if x < 0 then \<lceil>x\<rceil> else \<lfloor>x\<rfloor>)"

text \<open>The decimal digits of a natural number, and the format spec \<open>0w\<close> of an f-string
  (\<open>f"{n:02}"\<close>): zero padding to width \<open>w\<close>, the sign counted in the width.\<close>

fun dec :: "nat \<Rightarrow> string" where
  "dec n = (if n < 10 then [char_of (48 + n)] else dec (n div 10) @ [char_of (48 + n mod 10)])"

declare dec.simps [simp del]

definition zfill :: "nat \<Rightarrow> string \<Rightarrow> string" where
  "zfill w s = replicate (w - length s) (CHR ''0'') @ s"

definition fmt0 :: "nat \<Rightarrow> int \<Rightarrow> string" where
  "fmt0 w n =
     (if n < 0 then CHR ''-'' # zfill (w - 1) (dec (nat (- n))) else zfill w (dec (nat n)))"

subsection \<open>Anchored regular expressions\<close>

text \<open>
  The four patterns of \<open>parse_timecode\<close> are sequences of \<open>\d{m,n}\<close> and literal
  characters between \<open>^\<close> and \<open>$\<close>. \<open>re_match\<close> is \<open>re.match\<close> on such a pattern: it tries
  every admissible length of a digit run (whether some choice matches does not depend on
  the order of the tries), and \<open>$\<close> accepts the end of the text or a single newline
  before it.
\<close>

datatype regex_item = Digits nat nat | Lit char

fun re_match :: "regex_item list \<Rightarrow> string \<Rightarrow> bool" where
  "re_match [] s = (s = [] \<or> s = [CHR 0x0A])"
| "re_match (Lit c # r) s = (case s of [] \<Rightarrow> False | x # xs \<Rightarrow> x = c \<and> re_match r xs)"
| "re_match (Digits m n # r) s =
     list_ex (\<lambda>k. k \<le> length s \<and> list_all isdigit (take k s) \<and> re_match r (drop k s))
       [m..<Suc n]"

section \<open>Timecodes (VideoCutter.py)\<close>

text \<open>
  \<open>VideoEditorApp.parse_timecode\<close>. The result \<open>Inr None\<close> is the Python return value
  \<open>None\<close>; \<open>Inl ValueError\<close> is what unpacking a field list of the wrong length would
  raise.
\<close>

definition parse_timecode :: "string \<Rightarrow> error + rat option" where
  "parse_timecode text =
     (let timecode_str = strip text in
      if re_match [Digits 1 2, Lit (CHR '':''), Digits 2 2, Lit (CHR '':''),
                   Digits 2 2, Lit (CHR '':''), Digits 3 3] timecode_str
      then (case map int_of_str (split (CHR '':'') timecode_str) of
              [hours, minutes, seconds, milliseconds] \<Rightarrow>
                Inr (Some (of_int (hours * 3600 + minutes * 60 + seconds)
                           + of_int milliseconds / 1000))
            | _ \<Rightarrow> Inl ValueError)
      else if re_match [Digits 1 2, Lit (CHR '':''), Digits 2 2, Lit (CHR '':''),
                        Digits 2 2] timecode_str
      then (case map int_of_str (split (CHR '':'') timecode_str) of
              [hours, minutes, seconds] \<Rightarrow>
                Inr (Some (of_int (hours * 3600 + minutes * 60 + seconds)))
            | _ \<Rightarrow> Inl ValueError)
      else if re_match [Digits 1 2, Lit (CHR '':''), Digits 2 2, Lit (CHR '':''),
                        Digits 3 3] timecode_str
      then (case map int_of_str (split (CHR '':'') timecode_str) of
              [minutes, seconds, milliseconds] \<Rightarrow>
                Inr (Some (of_int (minutes * 60 + seconds) + of_int milliseconds / 1000))
            | _ \<Rightarrow> Inl ValueError)
      else if re_match [Digits 1 2, Lit (CHR '':''), Digits 2 2] timecode_str
      then (case map int_of_str (split (CHR '':'') timecode_str) of
              [minutes, seconds] \<Rightarrow> Inr (Some (of_int (minutes * 60 + seconds)))
            | _ \<Rightarrow> Inl ValueError)
      else Inr None)"

text \<open>
  \<open>VideoEditorApp.convert_seconds_to_timecode\<close> (the four-field form). The source
  rebinds \<open>seconds\<close> to the integer remainder before it computes the milliseconds, so
  \<open>seconds - int(seconds)\<close> is a difference of that integer with itself.
\<close>

definition VideoEditorApp_convert_seconds_to_timecode :: "rat \<Rightarrow> string" where
  "VideoEditorApp_convert_seconds_to_timecode secs =
     (let hours = int_of_num secs div 3600;
          remainder = int_of_num secs mod 3600;
          minutes = remainder div 60;
          remainder = remainder mod 60;
          seconds = remainder;
          milliseconds = int_of_num ((of_int seconds - of_int seconds) * 1000)
      in fmt0 2 hours @ '':'' @ fmt0 2 minutes @ '':'' @ fmt0 2 seconds @ '':''
         @ fmt0 3 milliseconds)"

text \<open>\<open>CutWindow.convert_seconds_to_timecode\<close> (the three-field form).\<close>

definition CutWindow_convert_seconds_to_timecode :: "rat \<Rightarrow> string" where
  "CutWindow_convert_seconds_to_timecode secs =
     (let hours = int_of_num secs div 3600;
          remainder = int_of_num secs mod 3600;
          minutes = remainder div 60;
          remainder = remainder mod 60;
          seconds = remainder
      in fmt0 2 hours @ '':'' @ fmt0 2 minutes @ '':'' @ fmt0 2 seconds)"

section \<open>The main window (VideoCutter.py)\<close>

text \<open>
  \<open>MarkerBar\<close>: the duration it scales by and the markers it draws. \<open>add_marker\<close>
  ignores a position outside the bar; \<open>remove_marker\<close> ignores an index outside the
  list (the index is a Python int and may be negative).
\<close>

record marker_bar =
  bar_duration :: rat
  markers :: "rat list"

definition add_marker :: "marker_bar \<Rightarrow> rat \<Rightarrow> marker_bar" where
  "add_marker bar time_position =
     (if 0 \<le> time_position \<and> time_position \<le> bar_duration bar
      then bar\<lparr>markers := markers bar @ [time_position]\<rparr>
      else bar)"

definition remove_marker :: "marker_bar \<Rightarrow> int \<Rightarrow> marker_bar" where
  "remove_marker bar index =
     (if 0 \<le> index \<and> index < int (length (markers bar))
      then bar\<lparr>markers := take (nat index) (markers bar) @ drop (Suc (nat index)) (markers bar)\<rparr>
      else bar)"

text \<open>
  \<open>VideoEditorApp\<close>: \<open>clip\<close> is the duration of the loaded clip (\<open>None\<close> before a
  video is loaded), \<open>text_edit\<close> the lines appended to the log widget.
\<close>

record editor =
  clip :: "rat option"
  duration :: rat
  cut_points :: "rat list"
  bar :: marker_bar
  text_edit :: "string list"

text \<open>\<open>load_video\<close> with a chosen file whose clip has duration \<open>d\<close>.\<close>

definition load_video :: "editor \<Rightarrow> rat \<Rightarrow> editor" where
  "load_video app d = app\<lparr>clip := Some d, duration := d, bar := (bar app)\<lparr>bar_duration := d\<rparr>\<rparr>"

definition new_editor :: editor where
  "new_editor = \<lparr>clip = None, duration = 0, cut_points = [],
                  bar = \<lparr>bar_duration = 0, markers = []\<rparr>, text_edit = []\<rparr>"

text \<open>
  \<open>add_cut_point\<close>: \<open>player_time\<close> is what \<open>media_player.get_time()\<close> returns, in
  milliseconds.
\<close>

definition add_cut_point :: "editor \<Rightarrow> int \<Rightarrow> editor" where
  "add_cut_point app player_time =
     (if clip app = None then app
      else
        (let current_time = of_int player_time / 1000;
             timecode = VideoEditorApp_convert_seconds_to_timecode current_time
         in app\<lparr>cut_points := cut_points app @ [current_time],
                 text_edit := text_edit app @ [timecode],
                 bar := add_marker (bar app) current_time\<rparr>))"

text \<open>
  \<open>add_manual_marker\<close>: \<open>timecode_str\<close> is the text of the input field. The chained
  comparison reads \<open>self.clip.duration\<close> only after \<open>0 <= timecode_seconds\<close> held; with
  no clip loaded that read raises.
\<close>

definition add_manual_marker :: "editor \<Rightarrow> string \<Rightarrow> error + editor" where
  "add_manual_marker app timecode_str =
     (case parse_timecode timecode_str of
        Inl e \<Rightarrow> Inl e
      | Inr None \<Rightarrow> Inr (app\<lparr>text_edit := text_edit app @ [''Invalid timecode.'']\<rparr>)
      | Inr (Some timecode_seconds) \<Rightarrow>
          if 0 \<le> timecode_seconds then
            (case clip app of
               None \<Rightarrow> Inl AttributeError
             | Some clip_duration \<Rightarrow>
                 if timecode_seconds \<le> clip_duration then
                   Inr (app\<lparr>cut_points := cut_points app @ [timecode_seconds],
                            text_edit := text_edit app @
                              [''Marker added at '' @
                               VideoEditorApp_convert_seconds_to_timecode timecode_seconds],
                            bar := add_marker (bar app) timecode_seconds\<rparr>)
                 else Inr (app\<lparr>text_edit := text_edit app @ [''Invalid timecode.'']\<rparr>))
          else Inr (app\<lparr>text_edit := text_edit app @ [''Invalid timecode.'']\<rparr>))"

definition undo_last_marker :: "editor \<Rightarrow> editor" where
  "undo_last_marker app =
     (if cut_points app \<noteq> [] then
        (let last_marker = last (cut_points app)
         in app\<lparr>cut_points := butlast (cut_points app),
                 bar := remove_marker (bar app) (int (length (markers (bar app))) - 1),
                 text_edit := text_edit app @
                   [''Removed marker at '' @
                    VideoEditorApp_convert_seconds_to_timecode last_marker]\<rparr>)
      else app\<lparr>text_edit := text_edit app @ [''No markers to undo.'']\<rparr>)"

section \<open>The cut window (CutWindow.py)\<close>

text \<open>
  \<open>CutWindow\<close>: \<open>sections\<close> holds the strings \<open>keep\<close> and \<open>delete\<close>, \<open>rows\<close> the range
  (\<open>last_time\<close>, \<open>cut_time\<close>) that each section row displays and previews.
\<close>

record cut_window =
  cw_duration :: rat
  cw_cut_points :: "rat list"
  sections :: "string list"
  rows :: "(rat \<times> rat) list"
  background_image_path :: "string option"

text \<open>The loop of \<open>init_ui\<close> over \<open>cut_points + [duration]\<close>.\<close>

fun init_ui_loop :: "rat \<Rightarrow> rat list \<Rightarrow> cut_window \<Rightarrow> cut_window" where
  "init_ui_loop last_time [] w = w"
| "init_ui_loop last_time (cut_time # rest) w =
     init_ui_loop cut_time rest
       (w\<lparr>rows := rows w @ [(last_time, cut_time)], sections := sections w @ [''keep'']\<rparr>)"

definition CutWindow :: "rat \<Rightarrow> rat list \<Rightarrow> cut_window" where
  "CutWindow d cps =
     init_ui_loop 0 (cps @ [d])
       \<lparr>cw_duration = d, cw_cut_points = cps, sections = [], rows = [],
        background_image_path = None\<rparr>"

text \<open>\<open>open_cut_window\<close> builds the window from the editor's duration and cut points.\<close>

definition open_cut_window :: "editor \<Rightarrow> cut_window option" where
  "open_cut_window app =
     (if clip app = None then None else Some (CutWindow (duration app) (cut_points app)))"

definition toggle_section_choice :: "cut_window \<Rightarrow> nat \<Rightarrow> bool \<Rightarrow> error + cut_window" where
  "toggle_section_choice w index checked =
     (if index < length (sections w)
      then Inr (w\<lparr>sections := (sections w)[index := (if checked then ''keep'' else ''delete'')]\<rparr>)
      else Inl IndexError)"

text \<open>
  \<open>get_silence_duration\<close>: the argument is the outcome of \<open>float\<close> on the text of the
  input field, \<open>None\<close> when it raises \<open>ValueError\<close>.
\<close>

definition get_silence_duration :: "rat option \<Rightarrow> rat" where
  "get_silence_duration float_of_text =
     (case float_of_text of
        Some silence_duration \<Rightarrow> max silence_duration 0
      | None \<Rightarrow> 1)"

subsection \<open>The two export paths\<close>

text \<open>
  The clips an export collects: \<open>video.subclip(last_time, cut_time).audio\<close> and the silent
  \<open>AudioClip\<close> of a given duration. A subclip lasts from its start to its end.
\<close>

datatype step = KeepRange rat rat | SilenceGap rat

fun clip_duration :: "step \<Rightarrow> rat" where
  "clip_duration (KeepRange t_start t_end) = t_end - t_start"
| "clip_duration (SilenceGap d) = d"

text \<open>\<open>sum([clip.duration for clip in final_audio_clips])\<close>.\<close>

definition final_duration :: "step list \<Rightarrow> rat" where
  "final_duration clips = sum_list (map clip_duration clips)"

text \<open>
  The loop of \<open>cut_and_join_sections_with_background\<close>, from index \<open>i\<close> on;
  \<open>self.sections[i]\<close> raises when the index is out of range.
\<close>

fun gather_with_background ::
  "cut_window \<Rightarrow> rat \<Rightarrow> nat \<Rightarrow> rat \<Rightarrow> rat list \<Rightarrow> step list \<Rightarrow> error + step list" where
  "gather_with_background w silence_duration i last_time [] final_audio_clips =
     Inr final_audio_clips"
| "gather_with_background w silence_duration i last_time (cut_time # rest) final_audio_clips =
     (if i < length (sections w) then
        (if sections w ! i = ''keep'' then
           gather_with_background w silence_duration (Suc i) cut_time rest
             (final_audio_clips @ [KeepRange last_time cut_time] @
              (if i < length (cw_cut_points w) then [SilenceGap silence_duration] else []))
         else gather_with_background w silence_duration (Suc i) cut_time rest final_audio_clips)
      else Inl IndexError)"

text \<open>The loop of \<open>cut_and_join_sections_mp3\<close>.\<close>

fun gather_mp3 ::
  "cut_window \<Rightarrow> rat \<Rightarrow> nat \<Rightarrow> rat \<Rightarrow> rat list \<Rightarrow> step list \<Rightarrow> error + step list" where
  "gather_mp3 w silence_duration i last_time [] kept_audio_clips = Inr kept_audio_clips"
| "gather_mp3 w silence_duration i last_time (cut_time # rest) kept_audio_clips =
     (if i < length (sections w) then
        (if sections w ! i = ''keep'' then
           gather_mp3 w silence_duration (Suc i) cut_time rest
             (kept_audio_clips @ [KeepRange last_time cut_time] @
              (if i < length (cw_cut_points w) then [SilenceGap silence_duration] else []))
         else gather_mp3 w silence_duration (Suc i) cut_time rest kept_audio_clips)
      else Inl IndexError)"

definition plan_with_background :: "cut_window \<Rightarrow> rat \<Rightarrow> error + step list" where
  "plan_with_background w silence_duration =
     gather_with_background w silence_duration 0 0 (cw_cut_points w @ [cw_duration w]) []"

definition plan_mp3 :: "cut_window \<Rightarrow> rat \<Rightarrow> error + step list" where
  "plan_mp3 w silence_duration =
     gather_mp3 w silence_duration 0 0 (cw_cut_points w @ [cw_duration w]) []"

text \<open>
  What an export hands to its collaborators, in order: a warning box, the clip list
  given to \<open>concatenate_audioclips\<close>, the background image clip with its duration, the
  file written. What the library does with the list is outside the model.
\<close>

datatype action =
    Warning string
  | ConcatenateAudioclips "step list"
  | BackgroundClip string rat
  | WriteVideofile string
  | WriteAudiofile string

text \<open>
  \<open>confirm\<close> is the answer to the confirmation dialog, \<open>save_path\<close> the path chosen in
  the save dialog (empty when it is cancelled), \<open>float_of_text\<close> as for
  \<open>get_silence_duration\<close>.
\<close>

definition cut_and_join_sections_with_background ::
  "cut_window \<Rightarrow> rat option \<Rightarrow> bool \<Rightarrow> string \<Rightarrow> error + action list" where
  "cut_and_join_sections_with_background w float_of_text confirm save_path =
     (let silence_duration = get_silence_duration float_of_text in
      if \<not> confirm then Inr []
      else
        (case background_image_path w of
           None \<Rightarrow> Inr [Warning ''Please import a background image before proceeding.'']
         | Some image_path \<Rightarrow>
             if image_path = []
             then Inr [Warning ''Please import a background image before proceeding.'']
             else
               (case plan_with_background w silence_duration of
                  Inl e \<Rightarrow> Inl e
                | Inr final_audio_clips \<Rightarrow>
                    (let total = final_duration final_audio_clips
                     in Inr ([ConcatenateAudioclips final_audio_clips,
                              BackgroundClip image_path total] @
                             (if save_path \<noteq> [] then [WriteVideofile save_path] else []))))))"

definition cut_and_join_sections_mp3 ::
  "cut_window \<Rightarrow> rat option \<Rightarrow> bool \<Rightarrow> string \<Rightarrow> error + action list" where
  "cut_and_join_sections_mp3 w float_of_text confirm save_path =
     (let silence_duration = get_silence_duration float_of_text in
      if \<not> confirm then Inr []
      else
        (case plan_mp3 w silence_duration of
           Inl e \<Rightarrow> Inl e
         | Inr kept_audio_clips \<Rightarrow>
             if kept_audio_clips \<noteq> [] then
               Inr ([ConcatenateAudioclips kept_audio_clips] @
                    (if save_path \<noteq> [] then [WriteAudiofile save_path] else []))
             else Inr []))"

section \<open>Auxiliary definitions for the proofs\<close>

text \<open>The pairs of neighbours of a chain that starts at \<open>a\<close>: what \<open>init_ui\<close> appends to
  \<open>rows\<close>, without the window around it.\<close>

fun consecutive :: "rat \<Rightarrow> rat list \<Rightarrow> (rat \<times> rat) list" where
  "consecutive a [] = []"
| "consecutive a (c # cs) = (a, c) # consecutive c cs"

text \<open>
  A clip list made of blocks, each a kept range followed by at most one silence gap: no
  gap comes first and no two gaps are adjacent.
\<close>

fun keep_blocks :: "step list \<Rightarrow> bool" where
  "keep_blocks [] = True"
| "keep_blocks (KeepRange a b # SilenceGap g # p) = keep_blocks p"
| "keep_blocks (KeepRange a b # p) = keep_blocks p"
| "keep_blocks (SilenceGap g # p) = False"

text \<open>
  The four shapes in the spec's words, to be compared with \<open>parse_timecode\<close>: the
  text split at the colons has one field per letter group, each field all digits and of
  the group's width; the leading field has one or two digits (the spec's own example
  \<open>1:02:03:004\<close> has a one-digit hour). The shapes are tried in the spec's order.
\<close>

definition spec_field :: "nat \<times> nat \<Rightarrow> string \<Rightarrow> bool" where
  "spec_field w f = (fst w \<le> length f \<and> length f \<le> snd w \<and> list_all isdigit f)"

definition spec_shape :: "(nat \<times> nat) list \<Rightarrow> string \<Rightarrow> bool" where
  "spec_shape widths s = list_all2 spec_field widths (split (CHR '':'') s)"

definition spec_value :: "string \<Rightarrow> nat \<Rightarrow> rat" where
  "spec_value s i = of_int (int_of_str (split (CHR '':'') s ! i))"

definition spec_parse :: "string \<Rightarrow> rat option" where
  "spec_parse s =
     (if spec_shape [(1, 2), (2, 2), (2, 2), (3, 3)] s
      then Some (spec_value s 0 * 3600 + spec_value s 1 * 60 + spec_value s 2
                 + spec_value s 3 / 1000)
      else if spec_shape [(1, 2), (2, 2), (2, 2)] s
      then Some (spec_value s 0 * 3600 + spec_value s 1 * 60 + spec_value s 2)
      else if spec_shape [(1, 2), (2, 2), (3, 3)] s
      then Some (spec_value s 0 * 60 + spec_value s 1 + spec_value s 2 / 1000)
      else if spec_shape [(1, 2), (2, 2)] s
      then Some (spec_value s 0 * 60 + spec_value s 1)
      else None)"

text \<open>The regular expression for a list of field widths, for the proofs.\<close>

fun pattern_of :: "(nat \<times> nat) list \<Rightarrow> regex_item list" where
  "pattern_of [] = []"
| "pattern_of [w] = [Digits (fst w) (snd w)]"
| "pattern_of (w # v # ws) = Digits (fst w) (snd w) # Lit (CHR '':'') # pattern_of (v # ws)"

section \<open>The cut window: sections and export plans\<close>

lemma init_ui_loop_sections:
  "sections (init_ui_loop last_time cs w) = sections w @ replicate (length cs) ''keep''"
  by (induction cs arbitrary: last_time w) (simp_all add: replicate_app_Cons_same)

lemma init_ui_loop_frame:
  "cw_cut_points (init_ui_loop last_time cs w) = cw_cut_points w \<and>
   cw_duration (init_ui_loop last_time cs w) = cw_duration w \<and>
   background_image_path (init_ui_loop last_time cs w) = background_image_path w"
  by (induction cs arbitrary: last_time w) simp_all

lemma init_ui_loop_rows: "rows (init_ui_loop a cs w) = rows w @ consecutive a cs"
  by (induction cs arbitrary: a w) simp_all

lemma CutWindow_sections: "sections (CutWindow d cps) = replicate (Suc (length cps)) ''keep''"
  by (simp add: CutWindow_def init_ui_loop_sections)

lemma CutWindow_fields:
  "cw_cut_points (CutWindow d cps) = cps \<and> cw_duration (CutWindow d cps) = d"
  by (simp add: CutWindow_def init_ui_loop_frame)

lemma CutWindow_rows: "rows (CutWindow d cps) = consecutive 0 (cps @ [d])"
  by (simp add: CutWindow_def init_ui_loop_rows)

lemma length_consecutive: "length (consecutive a cs) = length cs"
  by (induction cs arbitrary: a) simp_all

lemma nth_consecutive:
  "i < length cs \<Longrightarrow> consecutive a cs ! i = ((a # cs) ! i, cs ! i)"
proof (induction cs arbitrary: a i)
  case Nil
  then show ?case by simp
next
  case (Cons c cs)
  then show ?case by (cases i) simp_all
qed

lemma sum_consecutive:
  "(\<Sum>p\<leftarrow>consecutive a cs. snd p - fst p) = last (a # cs) - a"
  by (induction cs arbitrary: a) simp_all

lemma consecutive_bounds:
  "p \<in> set (consecutive a cs) \<Longrightarrow> fst p \<in> set (a # butlast cs) \<and> snd p \<in> set cs"
proof (induction cs arbitrary: a)
  case Nil
  then show ?case by simp
next
  case (Cons c cs)
  from Cons.prems consider "p = (a, c)" | "p \<in> set (consecutive c cs)" by auto
  then show ?case
  proof cases
    case 1
    then show ?thesis by simp
  next
    case 2
    then have ne: "cs \<noteq> []" by auto
    from Cons.IH [OF 2] ne show ?thesis by simp
  qed
qed

lemma consecutive_covers:
  "cs \<noteq> [] \<Longrightarrow> a \<le> x \<Longrightarrow> x \<le> last cs \<Longrightarrow>
   \<exists>p\<in>set (consecutive a cs). fst p \<le> x \<and> x \<le> snd p"
proof (induction cs arbitrary: a)
  case Nil
  then show ?case by simp
next
  case (Cons c cs)
  show ?case
  proof (cases "x \<le> c")
    case True
    with Cons.prems show ?thesis by auto
  next
    case False
    with Cons.prems have ne: "cs \<noteq> []" by auto
    from False have "c \<le> x" by simp
    moreover from Cons.prems ne have "x \<le> last cs" by simp
    ultimately obtain p where "p \<in> set (consecutive c cs)" "fst p \<le> x" "x \<le> snd p"
      using Cons.IH [OF ne] by blast
    then show ?thesis by auto
  qed
qed

lemma consecutive_sorted:
  "sorted (a # cs) \<Longrightarrow> p \<in> set (consecutive a cs) \<Longrightarrow> fst p \<le> snd p"
  by (induction cs arbitrary: a) auto

text \<open>
  C2. The section rows that the cut window derives from a duration \<open>d\<close> and cut points
  \<open>cps\<close>: there are \<open>length cps + 1\<close> of them (and as many section states), the first
  starts at 0, each ends where the next starts, the last ends at \<open>d\<close>, and with no cut
  point there is the single row \<open>(0, d)\<close>. Their lengths add up to \<open>d\<close>. When every cut
  point lies in \<open>[0, d]\<close> (what the spec calls a cut point) the rows cover exactly
  \<open>[0, d]\<close>, and when the cut points are sorted within \<open>[0, d]\<close> no row runs backwards.
\<close>

theorem sections_contiguous_exhaustive:
  "length (rows (CutWindow d cps)) = length cps + 1 \<and>
   length (sections (CutWindow d cps)) = length cps + 1 \<and>
   fst (rows (CutWindow d cps) ! 0) = 0 \<and>
   (\<forall>i. Suc i < length (rows (CutWindow d cps)) \<longrightarrow>
        snd (rows (CutWindow d cps) ! i) = fst (rows (CutWindow d cps) ! Suc i)) \<and>
   snd (rows (CutWindow d cps) ! length cps) = d \<and>
   (cps = [] \<longrightarrow> rows (CutWindow d cps) = [(0, d)]) \<and>
   (\<Sum>p\<leftarrow>rows (CutWindow d cps). snd p - fst p) = d \<and>
   ((\<forall>c\<in>set cps. 0 \<le> c \<and> c \<le> d) \<longrightarrow>
      (\<Union>p\<in>set (rows (CutWindow d cps)). {fst p..snd p}) = {0..d}) \<and>
   (sorted (0 # cps @ [d]) \<longrightarrow> (\<forall>p\<in>set (rows (CutWindow d cps)). fst p \<le> snd p))"
proof -
  let ?rs = "rows (CutWindow d cps)"
  have rs: "?rs = consecutive 0 (cps @ [d])" by (rule CutWindow_rows)
  have len: "length ?rs = length cps + 1" by (simp add: rs length_consecutive)
  have lens: "length (sections (CutWindow d cps)) = length cps + 1"
    by (simp add: CutWindow_sections)
  have first: "fst (?rs ! 0) = 0" by (simp add: rs nth_consecutive)
  have contig: "snd (?rs ! i) = fst (?rs ! Suc i)" if "Suc i < length ?rs" for i
  proof -
    from that len have i: "i < length cps" by simp
    then show ?thesis by (simp add: rs nth_consecutive nth_append)
  qed
  have lastd: "snd (?rs ! length cps) = d" by (simp add: rs nth_consecutive)
  have single: "?rs = [(0, d)]" if "cps = []" using that by (simp add: CutWindow_rows)
  have total: "(\<Sum>p\<leftarrow>?rs. snd p - fst p) = d" by (simp add: rs sum_consecutive)
  have cover: "(\<Union>p\<in>set ?rs. {fst p..snd p}) = {0..d}"
    if inr: "\<forall>c\<in>set cps. 0 \<le> c \<and> c \<le> d"
  proof (rule set_eqI, rule iffI)
    fix x assume "x \<in> (\<Union>p\<in>set ?rs. {fst p..snd p})"
    then obtain p where p: "p \<in> set ?rs" "fst p \<le> x" "x \<le> snd p" by auto
    from p(1) have "fst p \<in> set (0 # cps)" "snd p \<in> set (cps @ [d])"
      using consecutive_bounds [of p 0 "cps @ [d]"] by (simp_all add: rs)
    then have "0 \<le> fst p \<and> snd p \<le> d" using inr by auto
    with p show "x \<in> {0..d}" by simp
  next
    fix x assume "x \<in> {0..d}"
    then have "0 \<le> x" "x \<le> last (cps @ [d])" by simp_all
    then obtain p where "p \<in> set (consecutive 0 (cps @ [d]))" "fst p \<le> x" "x \<le> snd p"
      using consecutive_covers [of "cps @ [d]" 0 x] by auto
    then show "x \<in> (\<Union>p\<in>set ?rs. {fst p..snd p})" by (auto simp: rs)
  qed
  have fwd: "\<forall>p\<in>set ?rs. fst p \<le> snd p" if "sorted (0 # cps @ [d])"
    using that consecutive_sorted [of 0 "cps @ [d]"] by (auto simp: rs)
  show ?thesis using len lens first contig lastd single total cover fwd by blast
qed

theorem sections_contiguous_exhaustive_witness:
  "rows (CutWindow 30 [10, 20]) = [(0, 10), (10, 20), (20, 30)] \<and>
   length (sections (CutWindow 30 [10, 20])) = 3 \<and>
   (\<Sum>p\<leftarrow>rows (CutWindow 30 [10, 20]). snd p - fst p) = 30 \<and>
   (\<Union>p\<in>set (rows (CutWindow 30 [10, 20])). {fst p..snd p}) = {0..30}"
proof -
  have r: "rows (CutWindow 30 [10, 20]) = [(0, 10), (10, 20), (20, 30)]"
    by (simp add: CutWindow_def)
  have h: "\<forall>c\<in>set [10, 20 :: rat]. 0 \<le> c \<and> c \<le> 30" by simp
  from sections_contiguous_exhaustive [of 30 "[10, 20]"] h r show ?thesis by simp
qed

subsection \<open>The export loops\<close>

lemma gather_paths_agree:
  "gather_with_background w g i last_time rest clips = gather_mp3 w g i last_time rest clips"
  by (induction rest arbitrary: i last_time clips) simp_all

lemma gather_mp3_no_keep:
  "''keep'' \<notin> set (sections w) \<Longrightarrow> i + length rest = length (sections w) \<Longrightarrow>
   gather_mp3 w g i last_time rest clips = Inr clips"
proof (induction rest arbitrary: i last_time clips)
  case Nil
  then show ?case by simp
next
  case (Cons c rest)
  from Cons.prems have lt: "i < length (sections w)" by simp
  with Cons.prems(1) have "sections w ! i \<noteq> ''keep''" by (metis nth_mem)
  with lt Cons show ?case by simp
qed

text \<open>
  C10. For every cut window (duration, cut points, section states) and every silence
  duration, the loop of the full-video export and the loop of the MP3-only export
  collect the same sequence of kept ranges and silence gaps (or both raise).
\<close>

theorem export_paths_same_plan: "plan_with_background w g = plan_mp3 w g"
  by (simp add: plan_with_background_def plan_mp3_def gather_paths_agree)

text \<open>
  C3. On a 30-second item with cut points at 10 and 20, after the middle section is
  switched to delete, both exports collect
  \<open>[KeepRange 0 10, SilenceGap g, KeepRange 20 30]\<close> for every gap duration \<open>g\<close>, and the
  total duration of these clips is \<open>20 + g\<close>.
\<close>

theorem keep_delete_keep_plan:
  "\<exists>w. toggle_section_choice (CutWindow 30 [10, 20]) 1 False = Inr w \<and>
       sections w = [''keep'', ''delete'', ''keep''] \<and>
       plan_with_background w g = Inr [KeepRange 0 10, SilenceGap g, KeepRange 20 30] \<and>
       plan_mp3 w g = Inr [KeepRange 0 10, SilenceGap g, KeepRange 20 30] \<and>
       final_duration [KeepRange 0 10, SilenceGap g, KeepRange 20 30] = 20 + g"
  by (simp add: toggle_section_choice_def CutWindow_def plan_with_background_def plan_mp3_def
      final_duration_def)

text \<open>
  C1. The claim asks that no silence gap follows the last kept range. With one cut point
  at 10 on a 30-second item and the sections keep, delete, both exports collect the kept
  range followed by a silence gap: the gap is added after every kept section that is not
  the final section, also when every later section is deleted.
\<close>

theorem trailing_gap_after_last_keep:
  "\<exists>w. toggle_section_choice (CutWindow 30 [10]) 1 False = Inr w \<and>
       sections w = [''keep'', ''delete''] \<and>
       plan_with_background w 1 = Inr [KeepRange 0 10, SilenceGap 1] \<and>
       plan_mp3 w 1 = Inr [KeepRange 0 10, SilenceGap 1]"
  by (simp add: toggle_section_choice_def CutWindow_def plan_with_background_def plan_mp3_def)

lemma keep_blocks_Cons: "keep_blocks q \<Longrightarrow> keep_blocks (KeepRange a b # q)"
  by (cases q rule: keep_blocks.cases) simp_all

lemma keep_blocks_append: "keep_blocks p \<Longrightarrow> keep_blocks q \<Longrightarrow> keep_blocks (p @ q)"
  by (induction p rule: keep_blocks.induct) (simp_all add: keep_blocks_Cons)

lemma gather_mp3_keep_blocks:
  "i + length rest = length (sections w) \<Longrightarrow> keep_blocks clips \<Longrightarrow>
   \<exists>p. gather_mp3 w g i last_time rest clips = Inr p \<and> keep_blocks p"
proof (induction rest arbitrary: i last_time clips)
  case Nil
  then show ?case by simp
next
  case (Cons c rest)
  from Cons.prems have lt: "i < length (sections w)" and nx: "Suc i + length rest = length (sections w)"
    by simp_all
  have "keep_blocks ([KeepRange last_time c] @
              (if i < length (cw_cut_points w) then [SilenceGap g] else []))"
    by simp
  then have kb: "keep_blocks (clips @ [KeepRange last_time c] @
              (if i < length (cw_cut_points w) then [SilenceGap g] else []))"
    by (rule keep_blocks_append [OF Cons.prems(2)])
  show ?case
  proof (cases "sections w ! i = ''keep''")
    case True
    with lt Cons.IH [OF nx kb] show ?thesis by simp
  next
    case False
    with lt Cons.IH [OF nx Cons.prems(2)] show ?thesis by simp
  qed
qed

text \<open>
  For every cut window with one section state per section, both exports collect the
  same clip list, and in it every silence gap stands directly after a kept range: none
  comes first and no two are adjacent.
\<close>

theorem gaps_only_after_kept_ranges:
  "length (sections w) = length (cw_cut_points w) + 1 \<Longrightarrow>
   \<exists>p. plan_mp3 w g = Inr p \<and> plan_with_background w g = Inr p \<and> keep_blocks p"
proof -
  assume len: "length (sections w) = length (cw_cut_points w) + 1"
  then obtain p where "plan_mp3 w g = Inr p" "keep_blocks p"
    unfolding plan_mp3_def
    using gather_mp3_keep_blocks [of 0 "cw_cut_points w @ [cw_duration w]" w "[]" g 0] by auto
  then show ?thesis by (auto simp: plan_with_background_def plan_mp3_def gather_paths_agree)
qed

theorem gaps_only_after_kept_ranges_witness:
  "plan_mp3 ((CutWindow 30 [10, 20])\<lparr>sections := [''keep'', ''delete'', ''keep'']\<rparr>) 1
     = Inr [KeepRange 0 10, SilenceGap 1, KeepRange 20 30] \<and>
   keep_blocks [KeepRange 0 10, SilenceGap 1, KeepRange 20 30]"
proof -
  let ?w = "(CutWindow 30 [10, 20])\<lparr>sections := [''keep'', ''delete'', ''keep'']\<rparr>"
  have h: "length (sections ?w) = length (cw_cut_points ?w) + 1" by (simp add: CutWindow_fields)
  have e: "plan_mp3 ?w 1 = Inr [KeepRange 0 10, SilenceGap 1, KeepRange 20 30]"
    by (simp add: plan_mp3_def CutWindow_def)
  from gaps_only_after_kept_ranges [OF h, of 1] e show ?thesis by auto
qed

text \<open>
  C8, as the code has it. When no section is marked keep, both loops collect the empty
  list, and the MP3-only export hands nothing to the concatenation or to a writer and
  shows no message: it returns without reporting anything.
\<close>

theorem no_keep_empty_plan:
  "length (sections w) = length (cw_cut_points w) + 1 \<Longrightarrow> ''keep'' \<notin> set (sections w) \<Longrightarrow>
   plan_with_background w g = Inr [] \<and> plan_mp3 w g = Inr [] \<and>
   cut_and_join_sections_mp3 w float_of_text confirm save_path = Inr []"
proof -
  assume len: "length (sections w) = length (cw_cut_points w) + 1"
    and nk: "''keep'' \<notin> set (sections w)"
  have p: "plan_mp3 w h = Inr []" for h
    unfolding plan_mp3_def using len by (intro gather_mp3_no_keep [OF nk]) simp
  have q: "plan_with_background w g = Inr []"
    using p [of g] by (simp add: plan_with_background_def plan_mp3_def gather_paths_agree)
  show ?thesis using p q by (simp add: cut_and_join_sections_mp3_def)
qed

theorem no_keep_empty_plan_witness:
  "length (sections ((CutWindow 30 [10])\<lparr>sections := [''delete'', ''delete'']\<rparr>)) =
     length (cw_cut_points ((CutWindow 30 [10])\<lparr>sections := [''delete'', ''delete'']\<rparr>)) + 1 \<and>
   ''keep'' \<notin> set (sections ((CutWindow 30 [10])\<lparr>sections := [''delete'', ''delete'']\<rparr>)) \<and>
   plan_with_background ((CutWindow 30 [10])\<lparr>sections := [''delete'', ''delete'']\<rparr>) 1 = Inr [] \<and>
   plan_mp3 ((CutWindow 30 [10])\<lparr>sections := [''delete'', ''delete'']\<rparr>) 1 = Inr [] \<and>
   cut_and_join_sections_mp3 ((CutWindow 30 [10])\<lparr>sections := [''delete'', ''delete'']\<rparr>)
     None True ''out.mp3'' = Inr []"
proof -
  let ?w = "(CutWindow 30 [10])\<lparr>sections := [''delete'', ''delete'']\<rparr>"
  have h1: "length (sections ?w) = length (cw_cut_points ?w) + 1"
    by (simp add: CutWindow_fields)
  have h2: "''keep'' \<notin> set (sections ?w)" by simp
  from no_keep_empty_plan [OF h1 h2, of 1 None True "''out.mp3''"] h1 h2 show ?thesis by simp
qed

text \<open>
  The claim C8 as stated fails on the MP3-only path: with both sections of a 30-second
  item deleted the export returns having shown and written nothing, so no error
  condition is reported.
\<close>

theorem no_keep_reports_nothing:
  "cut_and_join_sections_mp3
     ((CutWindow 30 [10])\<lparr>sections := [''delete'', ''delete'']\<rparr>) (Some 1) True ''out.mp3''
   = Inr []"
  by (simp add: cut_and_join_sections_mp3_def plan_mp3_def CutWindow_def
      get_silence_duration_def)

text \<open>
  The full-video export has no such guard: with a background image chosen and every
  section deleted it hands the empty clip list to the concatenation.
\<close>

lemma no_keep_full_video_concatenates:
  "cut_and_join_sections_with_background
     ((CutWindow 30 [10])\<lparr>sections := [''delete'', ''delete''],
        background_image_path := Some ''bg.png''\<rparr>) (Some 1) True ''out.mp4''
   = Inr [ConcatenateAudioclips [], BackgroundClip ''bg.png'' 0, WriteVideofile ''out.mp4'']"
  by (simp add: cut_and_join_sections_with_background_def plan_with_background_def
      CutWindow_def get_silence_duration_def final_duration_def)

text \<open>
  C9, as the code has it. The silence duration is 1 when \<open>float\<close> rejects the text,
  0 when the number read is negative and the number itself otherwise; it is never
  negative.
\<close>

theorem silence_duration_default:
  "get_silence_duration x = (case x of None \<Rightarrow> 1 | Some v \<Rightarrow> if v < 0 then 0 else v) \<and>
   0 \<le> get_silence_duration x"
  by (auto simp: get_silence_duration_def split: option.splits)

text \<open>The claim C9 as stated fails on an invalid text: the result is 1, not 0.\<close>

theorem invalid_silence_is_one:
  "get_silence_duration None = 1 \<and> get_silence_duration None \<noteq> 0"
  by (simp add: get_silence_duration_def)

section \<open>The main window: cut points and undo\<close>

text \<open>
  C7. After a video is loaded, adding a cut point at a time within the duration (from the
  player's position or from a typed timecode) and then undoing the last marker gives
  back the same cut points and the same marker bar, so the cut window opened afterwards
  has the same sections and section states as before; the clip and the duration are
  untouched. Undo with no cut points changes nothing but the log, where it reports
  that there is nothing to undo.
\<close>

theorem add_then_undo_restores:
  "(clip app = Some d \<and> bar_duration (bar app) = d \<and> 0 \<le> (of_int ms / 1000 :: rat) \<and> of_int ms / 1000 \<le> d \<longrightarrow>
      cut_points (undo_last_marker (add_cut_point app ms)) = cut_points app \<and>
      bar (undo_last_marker (add_cut_point app ms)) = bar app \<and>
      clip (undo_last_marker (add_cut_point app ms)) = clip app \<and>
      duration (undo_last_marker (add_cut_point app ms)) = duration app \<and>
      open_cut_window (undo_last_marker (add_cut_point app ms)) = open_cut_window app) \<and>
   (clip app = Some d \<and> bar_duration (bar app) = d \<and> parse_timecode txt = Inr (Some t) \<and>
    0 \<le> t \<and> t \<le> d \<longrightarrow>
      (\<exists>app'. add_manual_marker app txt = Inr app' \<and>
         cut_points (undo_last_marker app') = cut_points app \<and>
         bar (undo_last_marker app') = bar app \<and>
         clip (undo_last_marker app') = clip app \<and>
         duration (undo_last_marker app') = duration app \<and>
         open_cut_window (undo_last_marker app') = open_cut_window app)) \<and>
   (cut_points app = [] \<longrightarrow>
      undo_last_marker app = app\<lparr>text_edit := text_edit app @ [''No markers to undo.'']\<rparr>)"
  by (simp add: add_cut_point_def add_manual_marker_def undo_last_marker_def add_marker_def
      remove_marker_def open_cut_window_def Let_def)

theorem add_then_undo_restores_witness:
  "cut_points (undo_last_marker (add_cut_point ((load_video new_editor 30)\<lparr>cut_points := [5], bar := \<lparr>bar_duration = 30, markers = [5]\<rparr>\<rparr>) 1500)) = [5] \<and>
   bar (undo_last_marker (add_cut_point ((load_video new_editor 30)\<lparr>cut_points := [5], bar := \<lparr>bar_duration = 30, markers = [5]\<rparr>\<rparr>) 1500)) = \<lparr>bar_duration = 30, markers = [5]\<rparr> \<and>
   (\<exists>app'. add_manual_marker ((load_video new_editor 30)\<lparr>cut_points := [5], bar := \<lparr>bar_duration = 30, markers = [5]\<rparr>\<rparr>) ''00:10'' = Inr app' \<and>
      cut_points (undo_last_marker app') = [5] \<and>
      bar (undo_last_marker app') = \<lparr>bar_duration = 30, markers = [5]\<rparr>) \<and>
   undo_last_marker (load_video new_editor 30) =
     (load_video new_editor 30)\<lparr>text_edit := [''No markers to undo.'']\<rparr>"
proof -
  let ?base = "load_video new_editor 30"
  let ?app = "?base\<lparr>cut_points := [5], bar := \<lparr>bar_duration = 30, markers = [5]\<rparr>\<rparr>"
  have c: "clip ?app = Some 30" "bar_duration (bar ?app) = 30" "cut_points ?app = [5]"
    "bar ?app = \<lparr>bar_duration = 30, markers = [5]\<rparr>"
    by (simp_all add: load_video_def new_editor_def)
  have c0: "cut_points ?base = []" "text_edit ?base = []"
    by (simp_all add: load_video_def new_editor_def)
  have p10: "parse_timecode ''00:10'' = Inr (Some 10)" by code_simp
  from add_then_undo_restores [of ?app 30 1500 "''00:10''" 10] c p10
  have 1: "cut_points (undo_last_marker (add_cut_point ?app 1500)) = [5] \<and>
      bar (undo_last_marker (add_cut_point ?app 1500)) = \<lparr>bar_duration = 30, markers = [5]\<rparr> \<and>
      (\<exists>app'. add_manual_marker ?app ''00:10'' = Inr app' \<and>
        cut_points (undo_last_marker app') = [5] \<and>
        bar (undo_last_marker app') = \<lparr>bar_duration = 30, markers = [5]\<rparr>)"
    by auto
  from add_then_undo_restores [of ?base] c0
  have 2: "undo_last_marker ?base = ?base\<lparr>text_edit := [''No markers to undo.'']\<rparr>" by simp
  from 1 2 show ?thesis by blast
qed

section \<open>The timecode parser\<close>

lemma split_not_Nil: "split c s \<noteq> []"
  by (cases s) (simp_all split: list.splits)

lemma split_no_sep: "c \<notin> set f \<Longrightarrow> split c f = [f]"
  by (induction f) auto

lemma split_append_sep: "c \<notin> set f \<Longrightarrow> split c (f @ c # xs) = f # split c xs"
  by (induction f) auto

lemma split_Cons_decompose:
  "split c s = f # fs \<Longrightarrow>
   c \<notin> set f \<and> (fs = [] \<and> s = f \<or> fs \<noteq> [] \<and> (\<exists>xs. s = f @ c # xs \<and> split c xs = fs))"
proof (induction s arbitrary: f fs)
  case Nil
  then show ?case by simp
next
  case (Cons x xs)
  show ?case
  proof (cases "x = c")
    case True
    with Cons.prems show ?thesis by (auto simp: split_not_Nil)
  next
    case False
    obtain g gs where g: "split c xs = g # gs"
      using split_not_Nil [of c xs] by (cases "split c xs") auto
    with False Cons.prems have f: "f = x # g" "fs = gs" by simp_all
    from Cons.IH [OF g] False f show ?thesis by auto
  qed
qed

lemma isdigit_not_colon: "isdigit c \<Longrightarrow> c \<noteq> CHR '':''"
  by (auto simp: isdigit_def)

lemma digits_no_colon: "list_all isdigit f \<Longrightarrow> CHR '':'' \<notin> set f"
  by (auto simp: list_all_iff dest: isdigit_not_colon)

lemma re_match_last_field:
  assumes "s = [] \<or> last s \<noteq> CHR 0x0A"
  shows "re_match [Digits lo hi] s = (lo \<le> length s \<and> length s \<le> hi \<and> list_all isdigit s)"
proof -
  have nl: "drop k s \<noteq> [CHR 0x0A]" for k
  proof
    assume d: "drop k s = [CHR 0x0A]"
    then have "k < length s" by (cases "k < length s") simp_all
    then have "s \<noteq> []" "last s = last (drop k s)" by (auto simp: last_drop)
    then show False using assms d by simp
  qed
  show ?thesis
  proof
    assume "re_match [Digits lo hi] s"
    then obtain k where "lo \<le> k" "k \<le> hi" "k \<le> length s" "list_all isdigit (take k s)"
      "drop k s = []"
      using nl by (auto simp: list_ex_iff simp del: upt_Suc)
    then show "lo \<le> length s \<and> length s \<le> hi \<and> list_all isdigit s" by auto
  next
    assume "lo \<le> length s \<and> length s \<le> hi \<and> list_all isdigit s"
    then show "re_match [Digits lo hi] s"
      by (auto simp: list_ex_iff simp del: upt_Suc intro!: bexI [of _ "length s"])
  qed
qed

lemma re_match_field_colon:
  "re_match (Digits lo hi # Lit (CHR '':'') # r) s =
     (\<exists>f xs. s = f @ CHR '':'' # xs \<and> lo \<le> length f \<and> length f \<le> hi \<and> list_all isdigit f \<and>
        re_match r xs)"
proof
  assume "re_match (Digits lo hi # Lit (CHR '':'') # r) s"
  then obtain k where k: "lo \<le> k" "k \<le> hi" "k \<le> length s" "list_all isdigit (take k s)"
    and c: "case drop k s of [] \<Rightarrow> False | x # xs \<Rightarrow> x = CHR '':'' \<and> re_match r xs"
    by (auto simp: list_ex_iff simp del: upt_Suc)
  from c obtain xs where d: "drop k s = CHR '':'' # xs" "re_match r xs"
    by (cases "drop k s") auto
  have "s = take k s @ CHR '':'' # xs" using d by (metis append_take_drop_id)
  moreover have "lo \<le> length (take k s)" "length (take k s) \<le> hi" using k by simp_all
  ultimately show "\<exists>f xs. s = f @ CHR '':'' # xs \<and> lo \<le> length f \<and> length f \<le> hi \<and>
      list_all isdigit f \<and> re_match r xs"
    using k(4) d(2) by (intro exI [of _ "take k s"] exI [of _ xs]) simp
next
  assume "\<exists>f xs. s = f @ CHR '':'' # xs \<and> lo \<le> length f \<and> length f \<le> hi \<and> list_all isdigit f \<and>
      re_match r xs"
  then obtain f xs where "s = f @ CHR '':'' # xs" "lo \<le> length f" "length f \<le> hi"
    "list_all isdigit f" "re_match r xs" by blast
  then show "re_match (Digits lo hi # Lit (CHR '':'') # r) s"
    by (auto simp: list_ex_iff simp del: upt_Suc intro!: bexI [of _ "length f"])
qed

lemma re_match_pattern_of:
  "ws \<noteq> [] \<Longrightarrow> s = [] \<or> last s \<noteq> CHR 0x0A \<Longrightarrow>
   re_match (pattern_of ws) s = list_all2 spec_field ws (split (CHR '':'') s)"
proof (induction ws arbitrary: s rule: pattern_of.induct)
  case 1
  then show ?case by simp
next
  case (2 w)
  have "re_match (pattern_of [w]) s = spec_field w s"
    using re_match_last_field [OF "2.prems"(2)] by (simp add: spec_field_def del: re_match.simps)
  also have "\<dots> = list_all2 spec_field [w] (split (CHR '':'') s)"
  proof
    assume f: "spec_field w s"
    then have "split (CHR '':'') s = [s]"
      by (simp add: spec_field_def split_no_sep digits_no_colon)
    with f show "list_all2 spec_field [w] (split (CHR '':'') s)" by simp
  next
    assume "list_all2 spec_field [w] (split (CHR '':'') s)"
    then obtain f where f: "split (CHR '':'') s = [f]" "spec_field w f"
      by (auto simp: list_all2_Cons1)
    from split_Cons_decompose [OF f(1)] have "s = f" by simp
    with f show "spec_field w s" by simp
  qed
  finally show ?case .
next
  case (3 w v ws)
  show ?case
  proof
    assume "re_match (pattern_of (w # v # ws)) s"
    then have "re_match (Digits (fst w) (snd w) # Lit (CHR '':'') # pattern_of (v # ws)) s"
      by (simp del: re_match.simps)
    then obtain f xs where s: "s = f @ CHR '':'' # xs" and f: "spec_field w f"
      and r: "re_match (pattern_of (v # ws)) xs"
      unfolding re_match_field_colon spec_field_def by blast
    have "xs = [] \<or> last xs \<noteq> CHR 0x0A" using "3.prems"(2) s by auto
    with r "3.IH" have "list_all2 spec_field (v # ws) (split (CHR '':'') xs)" by simp
    moreover have "split (CHR '':'') s = f # split (CHR '':'') xs"
      using f s by (simp add: spec_field_def split_append_sep digits_no_colon)
    ultimately show "list_all2 spec_field (w # v # ws) (split (CHR '':'') s)"
      using f by simp
  next
    assume "list_all2 spec_field (w # v # ws) (split (CHR '':'') s)"
    then obtain f fs where sp: "split (CHR '':'') s = f # fs" and f: "spec_field w f"
      and fs: "list_all2 spec_field (v # ws) fs"
      by (auto simp: list_all2_Cons1)
    from fs have "fs \<noteq> []" by auto
    with split_Cons_decompose [OF sp] obtain xs where s: "s = f @ CHR '':'' # xs"
      and xs: "split (CHR '':'') xs = fs" by auto
    have "xs = [] \<or> last xs \<noteq> CHR 0x0A" using "3.prems"(2) s by auto
    with "3.IH" fs xs have "re_match (pattern_of (v # ws)) xs" by simp
    with s f have "re_match (Digits (fst w) (snd w) # Lit (CHR '':'') # pattern_of (v # ws)) s"
      unfolding re_match_field_colon spec_field_def by blast
    then show "re_match (pattern_of (w # v # ws)) s" by (simp del: re_match.simps)
  qed
qed

lemma strip_no_newline_end: "strip s = [] \<or> last (strip s) \<noteq> CHR 0x0A"
proof (cases "strip s = []")
  case True
  then show ?thesis by simp
next
  case False
  let ?r = "dropWhile isspace (rev (dropWhile isspace s))"
  from False have ne: "?r \<noteq> []" by (simp add: strip_def)
  then have "\<not> isspace (hd ?r)" by (rule hd_dropWhile)
  moreover have "last (strip s) = hd ?r" using ne by (simp add: strip_def last_rev)
  moreover have "isspace (CHR 0x0A)" by (simp add: isspace_def)
  ultimately show ?thesis by metis
qed

lemma re_match_shape:
  "ws \<noteq> [] \<Longrightarrow> re_match (pattern_of ws) (strip s) = spec_shape ws (strip s)"
  unfolding spec_shape_def by (rule re_match_pattern_of [OF _ strip_no_newline_end])

lemma parse_timecode_refines:
  "parse_timecode s = Inr (spec_parse (strip s))"
proof -
  let ?t = "strip s"
  have p4: "re_match [Digits 1 2, Lit (CHR '':''), Digits 2 2, Lit (CHR '':''),
                      Digits 2 2, Lit (CHR '':''), Digits 3 3] ?t
            = spec_shape [(1, 2), (2, 2), (2, 2), (3, 3)] ?t"
    using re_match_shape [of "[(1, 2), (2, 2), (2, 2), (3, 3)]" s] by (simp del: re_match.simps)
  have p3: "re_match [Digits 1 2, Lit (CHR '':''), Digits 2 2, Lit (CHR '':''), Digits 2 2] ?t
            = spec_shape [(1, 2), (2, 2), (2, 2)] ?t"
    using re_match_shape [of "[(1, 2), (2, 2), (2, 2)]" s] by (simp del: re_match.simps)
  have p3m: "re_match [Digits 1 2, Lit (CHR '':''), Digits 2 2, Lit (CHR '':''), Digits 3 3] ?t
            = spec_shape [(1, 2), (2, 2), (3, 3)] ?t"
    using re_match_shape [of "[(1, 2), (2, 2), (3, 3)]" s] by (simp del: re_match.simps)
  have p2: "re_match [Digits 1 2, Lit (CHR '':''), Digits 2 2] ?t
            = spec_shape [(1, 2), (2, 2)] ?t"
    using re_match_shape [of "[(1, 2), (2, 2)]" s] by (simp del: re_match.simps)
  consider (a) "spec_shape [(1, 2), (2, 2), (2, 2), (3, 3)] ?t"
    | (b) "\<not> spec_shape [(1, 2), (2, 2), (2, 2), (3, 3)] ?t" "spec_shape [(1, 2), (2, 2), (2, 2)] ?t"
    | (c) "\<not> spec_shape [(1, 2), (2, 2), (2, 2), (3, 3)] ?t" "\<not> spec_shape [(1, 2), (2, 2), (2, 2)] ?t"
          "spec_shape [(1, 2), (2, 2), (3, 3)] ?t"
    | (d) "\<not> spec_shape [(1, 2), (2, 2), (2, 2), (3, 3)] ?t" "\<not> spec_shape [(1, 2), (2, 2), (2, 2)] ?t"
          "\<not> spec_shape [(1, 2), (2, 2), (3, 3)] ?t" "spec_shape [(1, 2), (2, 2)] ?t"
    | (e) "\<not> spec_shape [(1, 2), (2, 2), (2, 2), (3, 3)] ?t" "\<not> spec_shape [(1, 2), (2, 2), (2, 2)] ?t"
          "\<not> spec_shape [(1, 2), (2, 2), (3, 3)] ?t" "\<not> spec_shape [(1, 2), (2, 2)] ?t"
    by blast
  then show ?thesis
  proof cases
    case a
    then obtain f1 f2 f3 f4 where "split (CHR '':'') ?t = [f1, f2, f3, f4]"
      by (auto simp: spec_shape_def list_all2_Cons1)
    with a show ?thesis
      unfolding parse_timecode_def Let_def p4 spec_parse_def by (simp add: spec_value_def)
  next
    case b
    then obtain f1 f2 f3 where "split (CHR '':'') ?t = [f1, f2, f3]"
      by (auto simp: spec_shape_def list_all2_Cons1)
    with b show ?thesis
      unfolding parse_timecode_def Let_def p4 p3 spec_parse_def by (simp add: spec_value_def)
  next
    case c
    then obtain f1 f2 f3 where "split (CHR '':'') ?t = [f1, f2, f3]"
      by (auto simp: spec_shape_def list_all2_Cons1)
    with c show ?thesis
      unfolding parse_timecode_def Let_def p4 p3 p3m spec_parse_def by (simp add: spec_value_def)
  next
    case d
    then obtain f1 f2 where "split (CHR '':'') ?t = [f1, f2]"
      by (auto simp: spec_shape_def list_all2_Cons1)
    with d show ?thesis
      unfolding parse_timecode_def Let_def p4 p3 p3m p2 spec_parse_def by (simp add: spec_value_def)
  next
    case e
    then show ?thesis
      unfolding parse_timecode_def Let_def p4 p3 p3m p2 spec_parse_def by simp
  qed
qed

text \<open>
  C5, as the code has it. The parser strips surrounding whitespace first; on the
  stripped text it accepts exactly the four shapes, tried in the spec's order, with the
  value the spec gives for the first shape that fits, returns \<open>None\<close> for every other
  text and never raises. The four examples of the claim hold.
\<close>

theorem parse_timecode_four_shapes:
  "parse_timecode s = Inr (spec_parse (strip s)) \<and>
   parse_timecode ''01:02:03'' = Inr (Some 3723) \<and>
   parse_timecode ''02:05'' = Inr (Some 125) \<and>
   parse_timecode ''1:02:03:004'' = Inr (Some (3723 + 4 / 1000)) \<and>
   parse_timecode ''bad'' = Inr None"
proof -
  have 1: "parse_timecode ''01:02:03'' = Inr (Some 3723)" by code_simp
  have 2: "parse_timecode ''02:05'' = Inr (Some 125)" by code_simp
  have 3: "parse_timecode ''1:02:03:004'' = Inr (Some (3723 + 4 / 1000))" by code_simp
  have 4: "parse_timecode ''bad'' = Inr None" by code_simp
  from parse_timecode_refines [of s] 1 2 3 4 show ?thesis by blast
qed

text \<open>
  The claim C5 as stated fails on a text with surrounding whitespace: a blank followed
  by \<open>02:05\<close> has none of the four shapes, and the parser returns 125 for it.
\<close>

theorem padded_timecode_accepted:
  "parse_timecode '' 02:05'' = Inr (Some 125) \<and> spec_parse '' 02:05'' = None"
  by code_simp

text \<open>
  C6. The claim asks that the four-field form gives the time back to the millisecond.
  For one and a half seconds the four-field formatter prints a millisecond field of
  zeros, and parsing its text gives 1: the fraction is lost.
\<close>

theorem four_field_form_drops_milliseconds:
  "VideoEditorApp_convert_seconds_to_timecode (3 / 2) = ''00:00:01:000'' \<and>
   parse_timecode (VideoEditorApp_convert_seconds_to_timecode (3 / 2)) = Inr (Some 1)"
  by code_simp

subsection \<open>Formatting and parsing again\<close>

lemma digit_char:
  "d < 10 \<Longrightarrow> isdigit (char_of (48 + d)) \<and> int (of_char (char_of (48 + d) :: char)) - 48 = int d"
  by (simp add: isdigit_def)

lemma char_of_48: "char_of (48 :: nat) = CHR ''0''"
  by code_simp

lemma dec_one_digit: "n < 10 \<Longrightarrow> dec n = [char_of (48 + n)]"
  by (simp add: dec.simps)

lemma dec_two_digits:
  "10 \<le> n \<Longrightarrow> n < 100 \<Longrightarrow> dec n = [char_of (48 + n div 10), char_of (48 + n mod 10)]"
  by (subst dec.simps) (simp add: dec_one_digit)

lemma fmt0_two_digits:
  assumes "0 \<le> k" "k < 100"
  shows "\<exists>a b. fmt0 2 k = [a, b] \<and> isdigit a \<and> isdigit b \<and> int_of_str [a, b] = k"
proof -
  let ?n = "nat k"
  have n: "?n < 100" "?n div 10 < 10" "?n mod 10 < 10" using assms by simp_all
  have f: "fmt0 2 k = [char_of (48 + ?n div 10), char_of (48 + ?n mod 10)]"
  proof (cases "?n < 10")
    case True
    then show ?thesis using assms by (simp add: fmt0_def zfill_def dec_one_digit char_of_48)
  next
    case False
    then show ?thesis using assms n by (simp add: fmt0_def zfill_def dec_two_digits)
  qed
  have e: "10 * int (?n div 10) + int (?n mod 10) = k"
    using assms by (simp add: zdiv_int zmod_int)
  have v: "int_of_str [char_of (48 + ?n div 10), char_of (48 + ?n mod 10)] = k"
    using digit_char [OF n(2)] digit_char [OF n(3)] e
    by (simp add: int_of_str_def)
  show ?thesis using f v digit_char [OF n(2)] digit_char [OF n(3)] by blast
qed

lemma fmt0_zero_ms: "fmt0 3 0 = ''000''"
  by code_simp

lemma isdigit_not_space: "isdigit c \<Longrightarrow> \<not> isspace c"
  by (auto simp: isdigit_def isspace_def Let_def)

lemma strip_unpadded:
  "\<not> isspace a \<Longrightarrow> \<not> isspace b \<Longrightarrow> strip (a # m @ [b]) = a # m @ [b]"
  by (simp add: strip_def)

lemma split_three_fields:
  assumes "list_all isdigit [a1, a2, b1, b2, c1, c2]"
  shows "split (CHR '':'') ([a1, a2] @ '':'' @ [b1, b2] @ '':'' @ [c1, c2])
         = [[a1, a2], [b1, b2], [c1, c2]]"
proof -
  from assms have "CHR '':'' \<notin> set [a1, a2, b1, b2, c1, c2]" by (rule digits_no_colon)
  then show ?thesis by auto
qed

lemma parse_three_fields:
  assumes "list_all isdigit [a1, a2, b1, b2, c1, c2]"
  shows "parse_timecode ([a1, a2] @ '':'' @ [b1, b2] @ '':'' @ [c1, c2]) =
         Inr (Some (of_int (int_of_str [a1, a2] * 3600 + int_of_str [b1, b2] * 60
                            + int_of_str [c1, c2])))"
proof -
  let ?t = "[a1, a2] @ '':'' @ [b1, b2] @ '':'' @ [c1, c2]"
  have sp: "\<not> isspace a1" "\<not> isspace c2" using assms by (simp_all add: isdigit_not_space)
  have st: "strip ?t = ?t"
    using strip_unpadded [OF sp, of "[a2] @ '':'' @ [b1, b2] @ '':'' @ [c1]"] by simp
  have fs: "split (CHR '':'') ?t = [[a1, a2], [b1, b2], [c1, c2]]"
    by (rule split_three_fields [OF assms])
  have "spec_parse ?t = Some (of_int (int_of_str [a1, a2] * 3600 + int_of_str [b1, b2] * 60
                            + int_of_str [c1, c2]))"
    unfolding spec_parse_def spec_shape_def spec_value_def fs
    using assms by (simp add: spec_field_def)
  then show ?thesis using parse_timecode_refines [of ?t] by (simp only: st)
qed

lemma split_four_fields:
  assumes "list_all isdigit [a1, a2, b1, b2, c1, c2, d1, d2, d3]"
  shows "split (CHR '':'') ([a1, a2] @ '':'' @ [b1, b2] @ '':'' @ [c1, c2] @ '':'' @ [d1, d2, d3])
         = [[a1, a2], [b1, b2], [c1, c2], [d1, d2, d3]]"
proof -
  from assms have "CHR '':'' \<notin> set [a1, a2, b1, b2, c1, c2, d1, d2, d3]"
    by (rule digits_no_colon)
  then show ?thesis by auto
qed

lemma parse_four_fields:
  assumes "list_all isdigit [a1, a2, b1, b2, c1, c2, d1, d2, d3]"
  shows "parse_timecode ([a1, a2] @ '':'' @ [b1, b2] @ '':'' @ [c1, c2] @ '':'' @ [d1, d2, d3]) =
         Inr (Some (of_int (int_of_str [a1, a2] * 3600 + int_of_str [b1, b2] * 60
                            + int_of_str [c1, c2]) + of_int (int_of_str [d1, d2, d3]) / 1000))"
proof -
  let ?t = "[a1, a2] @ '':'' @ [b1, b2] @ '':'' @ [c1, c2] @ '':'' @ [d1, d2, d3]"
  have sp: "\<not> isspace a1" "\<not> isspace d3" using assms by (simp_all add: isdigit_not_space)
  have st: "strip ?t = ?t"
    using strip_unpadded [OF sp, of "[a2] @ '':'' @ [b1, b2] @ '':'' @ [c1, c2] @ '':'' @ [d1, d2]"]
    by simp
  have fs: "split (CHR '':'') ?t = [[a1, a2], [b1, b2], [c1, c2], [d1, d2, d3]]"
    by (rule split_four_fields [OF assms])
  have "spec_parse ?t = Some (of_int (int_of_str [a1, a2] * 3600 + int_of_str [b1, b2] * 60
                            + int_of_str [c1, c2]) + of_int (int_of_str [d1, d2, d3]) / 1000)"
    unfolding spec_parse_def spec_shape_def spec_value_def fs
    using assms by (simp add: spec_field_def)
  then show ?thesis using parse_timecode_refines [of ?t] by (simp only: st)
qed

lemma hms_fields:
  assumes "0 \<le> n" "n < 360000"
  shows "0 \<le> n div 3600 \<and> n div 3600 < 100 \<and> 0 \<le> n mod 3600 div 60 \<and> n mod 3600 div 60 < 60 \<and>
         0 \<le> n mod 3600 mod 60 \<and> n mod 3600 mod 60 < 60 \<and>
         n div 3600 * 3600 + n mod 3600 div 60 * 60 + n mod 3600 mod 60 = (n :: int)"
proof -
  define q where "q = n div 3600"
  define r where "r = n mod 3600"
  have n: "n = q * 3600 + r" by (simp add: q_def r_def)
  have r: "0 \<le> r" "r < 3600" by (simp_all add: r_def)
  have r2: "r = r div 60 * 60 + r mod 60" by simp
  have m: "0 \<le> r mod 60" "r mod 60 < 60" by simp_all
  have q: "0 \<le> q" "q < 100" using assms n r by linarith+
  have d: "0 \<le> r div 60" "r div 60 < 60" using r r2 m by linarith+
  show ?thesis using n r2 q d m unfolding q_def [symmetric] r_def [symmetric] by linarith
qed

text \<open>
  For a time from 0 up to (not including) 100 hours, parsing the three-field text of the
  cut window's formatter gives the time truncated to whole seconds.
\<close>

theorem three_field_round_trip:
  assumes "0 \<le> x" "x < 360000"
  shows "parse_timecode (CutWindow_convert_seconds_to_timecode x) = Inr (Some (of_int \<lfloor>x\<rfloor>))"
proof -
  let ?n = "\<lfloor>x\<rfloor>"
  have n: "0 \<le> ?n" "?n < 360000" using assms by (simp_all add: floor_less_iff)
  note h = hms_fields [OF n]
  obtain a1 a2 where a: "fmt0 2 (?n div 3600) = [a1, a2]" "isdigit a1" "isdigit a2"
    "int_of_str [a1, a2] = ?n div 3600"
    using fmt0_two_digits [of "?n div 3600"] h by auto
  obtain b1 b2 where b: "fmt0 2 (?n mod 3600 div 60) = [b1, b2]" "isdigit b1" "isdigit b2"
    "int_of_str [b1, b2] = ?n mod 3600 div 60"
    using fmt0_two_digits [of "?n mod 3600 div 60"] h by auto
  obtain c1 c2 where c: "fmt0 2 (?n mod 3600 mod 60) = [c1, c2]" "isdigit c1" "isdigit c2"
    "int_of_str [c1, c2] = ?n mod 3600 mod 60"
    using fmt0_two_digits [of "?n mod 3600 mod 60"] h by auto
  have t: "CutWindow_convert_seconds_to_timecode x = [a1, a2] @ '':'' @ [b1, b2] @ '':'' @ [c1, c2]"
    using assms a(1) b(1) c(1)
    by (simp add: CutWindow_convert_seconds_to_timecode_def int_of_num_def Let_def)
  have d: "list_all isdigit [a1, a2, b1, b2, c1, c2]" using a b c by simp
  show ?thesis unfolding t parse_three_fields [OF d] a(4) b(4) c(4) using h by simp
qed

theorem three_field_round_trip_witness:
  "parse_timecode (CutWindow_convert_seconds_to_timecode (7447 / 2)) = Inr (Some 3723)"
proof -
  have f: "\<lfloor>7447 / 2 :: rat\<rfloor> = 3723" by (simp add: floor_eq_iff)
  from three_field_round_trip [of "7447 / 2"] f show ?thesis by simp
qed

text \<open>
  The four-field text of the main window's formatter parses to the whole seconds as
  well: its millisecond field is always \<open>000\<close>.
\<close>

theorem four_field_round_trip_whole_seconds:
  assumes "0 \<le> x" "x < 360000"
  shows "parse_timecode (VideoEditorApp_convert_seconds_to_timecode x) = Inr (Some (of_int \<lfloor>x\<rfloor>))"
proof -
  let ?n = "\<lfloor>x\<rfloor>"
  have n: "0 \<le> ?n" "?n < 360000" using assms by (simp_all add: floor_less_iff)
  note h = hms_fields [OF n]
  obtain a1 a2 where a: "fmt0 2 (?n div 3600) = [a1, a2]" "isdigit a1" "isdigit a2"
    "int_of_str [a1, a2] = ?n div 3600"
    using fmt0_two_digits [of "?n div 3600"] h by auto
  obtain b1 b2 where b: "fmt0 2 (?n mod 3600 div 60) = [b1, b2]" "isdigit b1" "isdigit b2"
    "int_of_str [b1, b2] = ?n mod 3600 div 60"
    using fmt0_two_digits [of "?n mod 3600 div 60"] h by auto
  obtain c1 c2 where c: "fmt0 2 (?n mod 3600 mod 60) = [c1, c2]" "isdigit c1" "isdigit c2"
    "int_of_str [c1, c2] = ?n mod 3600 mod 60"
    using fmt0_two_digits [of "?n mod 3600 mod 60"] h by auto
  have z: "isdigit (CHR ''0'')" "int_of_str ''000'' = 0" by (simp_all add: isdigit_def int_of_str_def)
  have t: "VideoEditorApp_convert_seconds_to_timecode x =
      [a1, a2] @ '':'' @ [b1, b2] @ '':'' @ [c1, c2] @ '':'' @ ''000''"
    using assms a(1) b(1) c(1)
    by (simp add: VideoEditorApp_convert_seconds_to_timecode_def int_of_num_def Let_def
        fmt0_zero_ms)
  have d: "list_all isdigit [a1, a2, b1, b2, c1, c2, CHR ''0'', CHR ''0'', CHR ''0'']"
    using a b c z by simp
  show ?thesis unfolding t parse_four_fields [OF d] a(4) b(4) c(4) z(2) using h by simp
qed

theorem four_field_round_trip_whole_seconds_witness:
  "parse_timecode (VideoEditorApp_convert_seconds_to_timecode (7447 / 2)) = Inr (Some 3723)"
proof -
  have f: "\<lfloor>7447 / 2 :: rat\<rfloor> = 3723" by (simp add: floor_eq_iff)
  from four_field_round_trip_whole_seconds [of "7447 / 2"] f show ?thesis by simp
qed

section \<open>Adding cut points\<close>

text \<open>
  C4, as the code has it. A typed timecode that does not parse, or whose time lies
  outside the clip's duration, leaves the editor unchanged but for the log line
  \<open>Invalid timecode.\<close>; a time within the duration is appended at the end of the cut
  points, whether or not it is already there and whatever the order. The button
  appends the player's current time without any check.
\<close>

theorem add_marker_appends_unchecked:
  "(clip app = Some d \<and> parse_timecode txt = Inr (Some t) \<and> (t < 0 \<or> d < t) \<longrightarrow>
      add_manual_marker app txt = Inr (app\<lparr>text_edit := text_edit app @ [''Invalid timecode.'']\<rparr>)) \<and>
   (parse_timecode txt = Inr None \<longrightarrow>
      add_manual_marker app txt = Inr (app\<lparr>text_edit := text_edit app @ [''Invalid timecode.'']\<rparr>)) \<and>
   (clip app = Some d \<and> parse_timecode txt = Inr (Some t) \<and> 0 \<le> t \<and> t \<le> d \<longrightarrow>
      (\<exists>app'. add_manual_marker app txt = Inr app' \<and> cut_points app' = cut_points app @ [t])) \<and>
   (clip app = Some d \<longrightarrow>
      cut_points (add_cut_point app ms) = cut_points app @ [of_int ms / 1000])"
  by (auto simp: add_manual_marker_def add_cut_point_def Let_def)

theorem add_marker_appends_unchecked_witness:
  "add_manual_marker (load_video new_editor 30) ''00:35'' =
     Inr ((load_video new_editor 30)\<lparr>text_edit := [''Invalid timecode.'']\<rparr>) \<and>
   add_manual_marker (load_video new_editor 30) ''bad'' =
     Inr ((load_video new_editor 30)\<lparr>text_edit := [''Invalid timecode.'']\<rparr>) \<and>
   (\<exists>app'. add_manual_marker ((load_video new_editor 30)\<lparr>cut_points := [20, 10]\<rparr>) ''00:10'' = Inr app' \<and>
      cut_points app' = [20, 10, 10]) \<and>
   cut_points (add_cut_point (load_video new_editor 30) (- 1)) = [- 1 / 1000]"
proof -
  let ?app = "load_video new_editor 30"
  have c: "clip ?app = Some 30" "text_edit ?app = []" "cut_points ?app = []"
    by (simp_all add: load_video_def new_editor_def)
  have c': "clip (?app\<lparr>cut_points := [20, 10]\<rparr>) = Some 30" by (simp add: load_video_def)
  have p35: "parse_timecode ''00:35'' = Inr (Some 35)" by code_simp
  have p10: "parse_timecode ''00:10'' = Inr (Some 10)" by code_simp
  have pbad: "parse_timecode ''bad'' = Inr None" by code_simp
  from add_marker_appends_unchecked [of ?app 30 "''00:35''" 35] c p35
  have 1: "add_manual_marker ?app ''00:35'' = Inr (?app\<lparr>text_edit := [''Invalid timecode.'']\<rparr>)"
    by simp
  from add_marker_appends_unchecked [of ?app 30 "''bad''"] c pbad
  have 2: "add_manual_marker ?app ''bad'' = Inr (?app\<lparr>text_edit := [''Invalid timecode.'']\<rparr>)"
    by simp
  from add_marker_appends_unchecked [of "?app\<lparr>cut_points := [20, 10]\<rparr>" 30 "''00:10''" 10] c' p10
  have 3: "\<exists>app'. add_manual_marker (?app\<lparr>cut_points := [20, 10]\<rparr>) ''00:10'' = Inr app' \<and>
      cut_points app' = [20, 10, 10]" by simp
  from add_marker_appends_unchecked [of ?app 30 _ _ "- 1"] c
  have 4: "cut_points (add_cut_point ?app (- 1)) = [- 1 / 1000]" by simp
  from 1 2 3 4 show ?thesis by blast
qed

text \<open>
  The claim C4 as stated fails: on a 30-second item the timecode \<open>00:10\<close> is accepted a
  second time, and the cut points then hold 10 twice.
\<close>

theorem duplicate_cut_point_accepted:
  "add_manual_marker
     \<lparr>clip = Some 30, duration = 30, cut_points = [10],
      bar = \<lparr>bar_duration = 30, markers = [10]\<rparr>,
      text_edit = [''Marker added at 00:00:10:000'']\<rparr> ''00:10'' =
   Inr \<lparr>clip = Some 30, duration = 30, cut_points = [10, 10],
        bar = \<lparr>bar_duration = 30, markers = [10, 10]\<rparr>,
        text_edit = [''Marker added at 00:00:10:000'', ''Marker added at 00:00:10:000'']\<rparr>"
  by code_simp

text \<open>The state of that example is the one the first \<open>00:10\<close> leaves.\<close>

lemma first_cut_point_accepted:
  "add_manual_marker (load_video new_editor 30) ''00:10'' =
   Inr \<lparr>clip = Some 30, duration = 30, cut_points = [10],
        bar = \<lparr>bar_duration = 30, markers = [10]\<rparr>,
        text_edit = [''Marker added at 00:00:10:000'']\<rparr>"
  by code_simp

end
